theory Spec2Isabelle
  imports Complex_Main "HOL-Library.Multiset"
begin

section \<open>Data model of Proyectus.py\<close>

text \<open>
  The script keeps the city coordinates in a module-level list \<open>coords\<close>, their number in
  the module-level \<open>n\<close>, and the pairwise distances in a list of rows
  \<open>matriz_distancias\<close>. Both solvers read the global \<open>n\<close> and their parameter
  \<open>matriz\<close>; their parameter \<open>nombres\<close> is never used in their bodies, so the
  embedding passes \<open>n\<close> and the matrix.

  Python floats are idealised as exact reals (the data model speaks of real-valued
  coordinates and costs); \<open>float('inf')\<close> is the extra value \<open>Infinito\<close>. A read
  \<open>matriz[i][j]\<close> outside the rows raises \<open>IndexError\<close>, \<open>set.remove\<close> of an
  absent element raises \<open>KeyError\<close>, and a float division by zero raises
  \<open>ZeroDivisionError\<close>.
\<close>

datatype error = IndexError | KeyError | ZeroDivisionError

datatype costo = Finito real | Infinito

type_synonym matriz = "real list list"

text \<open>\<open>d < c\<close> for a finite float \<open>d\<close> and a possibly infinite \<open>c\<close>.\<close>

fun menor :: "real \<Rightarrow> costo \<Rightarrow> bool" where
  "menor d (Finito c) = (d < c)"
| "menor d Infinito = True"

text \<open>Float addition where either side may be \<open>inf\<close>.\<close>

fun mas :: "costo \<Rightarrow> costo \<Rightarrow> costo" where
  "mas (Finito a) (Finito b) = Finito (a + b)"
| "mas _ _ = Infinito"

text \<open>The read \<open>matriz[i][j]\<close> for non-negative indices.\<close>

definition leer :: "matriz \<Rightarrow> nat \<Rightarrow> nat \<Rightarrow> error + real" where
  "leer m i j =
     (if i < length m then
        (if j < length (m ! i) then Inr (m ! i ! j) else Inl IndexError)
      else Inl IndexError)"

section \<open>Distance matrix (lines 29--37)\<close>

definition calcular_distancia :: "real \<times> real \<Rightarrow> real \<times> real \<Rightarrow> real" where
  "calcular_distancia p1 p2 = sqrt ((fst p1 - fst p2)\<^sup>2 + (snd p1 - snd p2)\<^sup>2)"

text \<open>
  The matrix starts as \<open>n\<close> rows of \<open>n\<close> zeros; the two nested \<open>for\<close> loops over
  \<open>range(n)\<close> overwrite \<open>matriz_distancias[i][j]\<close>. The indices stay inside
  \<open>coords\<close> and the matrix, since \<open>n = len(coords)\<close>.
\<close>

definition fila_j :: "(real \<times> real) list \<Rightarrow> nat \<Rightarrow> matriz \<Rightarrow> nat \<Rightarrow> matriz" where
  "fila_j coords i m j = m[i := (m ! i)[j := calcular_distancia (coords ! i) (coords ! j)]]"

definition fila_i :: "(real \<times> real) list \<Rightarrow> nat \<Rightarrow> matriz \<Rightarrow> nat \<Rightarrow> matriz" where
  "fila_i coords n m i = foldl (fila_j coords i) m [0..<n]"

definition matriz_distancias :: "(real \<times> real) list \<Rightarrow> matriz" where
  "matriz_distancias coords =
     (let n = length coords
      in foldl (fila_i coords n) (replicate n (replicate n 0)) [0..<n])"

section \<open>Exhaustive search (lines 43--70)\<close>

text \<open>
  \<open>itertools.permutations(xs)\<close> yields the permutations of the positions of \<open>xs\<close> in
  lexicographic order of the positions: first all those starting with \<open>xs[0]\<close>, then all
  those starting with \<open>xs[1]\<close>, and so on, each group ordered the same way on the rest.
\<close>

fun permutaciones :: "'a list \<Rightarrow> 'a list list" where
  "permutaciones [] = [[]]"
| "permutaciones (x # xs) =
     concat (map (\<lambda>i. map ((#) ((x # xs) ! i))
                         (permutaciones (take i (x # xs) @ drop (Suc i) (x # xs))))
                 [0..<length (x # xs)])"

text \<open>
  The inner loop \<open>for k in range(len(ruta_actual) - 1)\<close>, adding
  \<open>matriz[ruta_actual[k]][ruta_actual[k+1]]\<close> to \<open>distancia_actual\<close>.
\<close>

fun bucle_distancia :: "matriz \<Rightarrow> nat list \<Rightarrow> nat list \<Rightarrow> real \<Rightarrow> error + real" where
  "bucle_distancia m ruta [] distancia_actual = Inr distancia_actual"
| "bucle_distancia m ruta (k # ks) distancia_actual =
     (case leer m (ruta ! k) (ruta ! (k + 1)) of
        Inl e \<Rightarrow> Inl e
      | Inr d \<Rightarrow> bucle_distancia m ruta ks (distancia_actual + d))"

definition distancia_ruta :: "matriz \<Rightarrow> nat list \<Rightarrow> error + real" where
  "distancia_ruta m ruta = bucle_distancia m ruta [0..<length ruta - 1] 0"

text \<open>
  The outer loop over the permutations, with the state \<open>(mejor_ruta, min_distancia)\<close>:
  \<open>None\<close> and \<open>float('inf')\<close> at the start, replaced only on a strictly smaller
  distance.
\<close>

fun bucle_permutaciones ::
  "matriz \<Rightarrow> nat list list \<Rightarrow> nat list option \<times> costo \<Rightarrow> error + (nat list option \<times> costo)"
where
  "bucle_permutaciones m [] estado = Inr estado"
| "bucle_permutaciones m (perm # perms) (mejor_ruta, min_distancia) =
     (let ruta_actual = [0] @ perm @ [0]
      in case distancia_ruta m ruta_actual of
           Inl e \<Rightarrow> Inl e
         | Inr distancia_actual \<Rightarrow>
             if menor distancia_actual min_distancia
             then bucle_permutaciones m perms (Some ruta_actual, Finito distancia_actual)
             else bucle_permutaciones m perms (mejor_ruta, min_distancia))"

definition busqueda_exhaustiva :: "nat \<Rightarrow> matriz \<Rightarrow> error + (nat list option \<times> costo)" where
  "busqueda_exhaustiva n m = bucle_permutaciones m (permutaciones [1..<n]) (None, Infinito)"

section \<open>Nearest neighbour (lines 72--109)\<close>

text \<open>
  The set \<open>no_visitadas\<close> is kept as the list of its elements in iteration order:
  \<open>set(range(1, n))\<close> iterates in increasing order, and removing an element leaves the
  order of the others as it was. The lemmas on the loop hold for every duplicate-free
  list, so the results do not depend on that order.

  The \<open>for vecina in no_visitadas\<close> loop, with the state
  \<open>(mas_cercana, min_dist_local)\<close>:
\<close>

fun buscar_cercana ::
  "matriz \<Rightarrow> nat \<Rightarrow> nat list \<Rightarrow> nat option \<times> costo \<Rightarrow> error + (nat option \<times> costo)"
where
  "buscar_cercana m actual [] estado = Inr estado"
| "buscar_cercana m actual (vecina # vs) (mas_cercana, min_dist_local) =
     (case leer m actual vecina of
        Inl e \<Rightarrow> Inl e
      | Inr d \<Rightarrow>
          if menor d min_dist_local
          then buscar_cercana m actual vs (Some vecina, Finito d)
          else buscar_cercana m actual vs (mas_cercana, min_dist_local))"

text \<open>
  The \<open>while no_visitadas\<close> loop, with the state
  \<open>(no_visitadas, ruta, actual, distancia_total)\<close>. \<open>no_visitadas.remove\<close> raises
  \<open>KeyError\<close> on \<open>None\<close> and on an absent element.
\<close>

function bucle_vecino ::
  "matriz \<Rightarrow> nat list \<Rightarrow> nat list \<Rightarrow> nat \<Rightarrow> costo \<Rightarrow> error + (nat list \<times> nat \<times> costo)"
where
  "bucle_vecino m no_visitadas ruta actual distancia_total =
     (if no_visitadas = [] then Inr (ruta, actual, distancia_total)
      else case buscar_cercana m actual no_visitadas (None, Infinito) of
             Inl e \<Rightarrow> Inl e
           | Inr (None, min_dist_local) \<Rightarrow> Inl KeyError
           | Inr (Some mas_cercana, min_dist_local) \<Rightarrow>
               if mas_cercana \<in> set no_visitadas
               then bucle_vecino m (remove1 mas_cercana no_visitadas) (ruta @ [mas_cercana])
                      mas_cercana (mas distancia_total min_dist_local)
               else Inl KeyError)"
  by pat_completeness auto
termination
  by (relation "measure (\<lambda>(m, no_visitadas, ruta, actual, distancia_total). length no_visitadas)")
     (auto simp: length_remove1)

declare bucle_vecino.simps [simp del]

definition vecino_mas_cercano :: "nat \<Rightarrow> matriz \<Rightarrow> error + (nat list \<times> costo)" where
  "vecino_mas_cercano n m =
     (case bucle_vecino m [1..<n] [0] 0 (Finito 0) of
        Inl e \<Rightarrow> Inl e
      | Inr (ruta, actual, distancia_total) \<Rightarrow>
          (case leer m actual 0 of
             Inl e \<Rightarrow> Inl e
           | Inr d \<Rightarrow> Inr (ruta @ [0], mas distancia_total (Finito d))))"

section \<open>Comparison (line 129)\<close>

text \<open>The division is unguarded: Python raises on a zero divisor.\<close>

definition gap :: "real \<Rightarrow> real \<Rightarrow> error + real" where
  "gap dist_nn dist_optima =
     (if dist_optima = 0 then Inl ZeroDivisionError
      else Inr (((dist_nn - dist_optima) / dist_optima) * 100))"

section \<open>Vocabulary of the specification\<close>

text \<open>A square matrix: \<open>n\<close> rows of \<open>n\<close> entries.\<close>

definition matriz_valida :: "nat \<Rightarrow> matriz \<Rightarrow> bool" where
  "matriz_valida n m = (length m = n \<and> (\<forall>fila \<in> set m. length fila = n))"


text \<open>The total cost of a route: the sum of its consecutive edge weights.\<close>

definition peso_total :: "matriz \<Rightarrow> nat list \<Rightarrow> real" where
  "peso_total m ruta = (\<Sum>k\<leftarrow>[0..<length ruta - 1]. m ! (ruta ! k) ! (ruta ! (k + 1)))"

text \<open>
  The Route invariant for \<open>n\<close> points: length \<open>n + 1\<close>, index 0 first and last, and
  \<open>route[1:-1]\<close> holding each of \<open>1..n-1\<close> once.
\<close>

definition ruta_valida :: "nat \<Rightarrow> nat list \<Rightarrow> bool" where
  "ruta_valida n ruta =
     (length ruta = n + 1 \<and> hd ruta = 0 \<and> last ruta = 0 \<and>
      distinct (butlast (tl ruta)) \<and> set (butlast (tl ruta)) = {1..<n})"

text \<open>
  The greedy rule, read off the specification: from \<open>actual\<close> and the unvisited
  \<open>no_visitadas\<close>, every next index is unvisited and at least as near to the current
  position as every unvisited index; it is then removed and becomes the current position;
  the choices end when nothing is unvisited.
\<close>

fun eleccion_voraz :: "matriz \<Rightarrow> nat \<Rightarrow> nat list \<Rightarrow> nat list \<Rightarrow> bool" where
  "eleccion_voraz m actual no_visitadas [] = (no_visitadas = [])"
| "eleccion_voraz m actual no_visitadas (x # xs) =
     (x \<in> set no_visitadas \<and>
      (\<forall>v \<in> set no_visitadas. m ! actual ! x \<le> m ! actual ! v) \<and>
      eleccion_voraz m x (remove1 x no_visitadas) xs)"

text \<open>The lexicographic order on index sequences.\<close>

definition lex_menor :: "nat list \<Rightarrow> nat list \<Rightarrow> bool" where
  "lex_menor p q = ((p, q) \<in> lexord {(a, b). a < b})"

section \<open>Reading the matrix along a route\<close>

lemma leer_valida:
  "matriz_valida n m \<Longrightarrow> leer m i j = (if i < n \<and> j < n then Inr (m ! i ! j) else Inl IndexError)"
  by (auto simp: leer_def matriz_valida_def)

lemma bucle_distancia_valida:
  "matriz_valida n m \<Longrightarrow>
   bucle_distancia m r ks acc =
     (if \<forall>k \<in> set ks. r ! k < n \<and> r ! (k + 1) < n
      then Inr (acc + (\<Sum>k\<leftarrow>ks. m ! (r ! k) ! (r ! (k + 1))))
      else Inl IndexError)"
  by (induction ks arbitrary: acc) (simp_all add: leer_valida)

lemma pares_en_rango:
  "(\<forall>k \<in> set [0..<length r - 1]. r ! k < n \<and> r ! (k + 1) < n) \<longleftrightarrow>
   (length r < 2 \<or> (\<forall>x \<in> set r. x < (n::nat)))"
proof (cases "length r < 2")
  case True
  then show ?thesis by (cases r) auto
next
  case False
  have "(\<forall>k < length r - 1. r ! k < n \<and> r ! (k + 1) < n) \<longleftrightarrow> (\<forall>i < length r. r ! i < n)"
  proof (intro iffI allI impI)
    fix i assume h: "\<forall>k < length r - 1. r ! k < n \<and> r ! (k + 1) < n" and i: "i < length r"
    show "r ! i < n"
    proof (cases "i < length r - 1")
      case True with h show ?thesis by blast
    next
      case False
      with i \<open>\<not> length r < 2\<close> have "i - 1 < length r - 1" "i - 1 + 1 = i" by auto
      with h show ?thesis by metis
    qed
  next
    fix k assume "\<forall>i < length r. r ! i < n" "k < length r - 1"
    then show "r ! k < n \<and> r ! (k + 1) < n" by auto
  qed
  with False show ?thesis by (auto simp: all_set_conv_all_nth)
qed

lemma distancia_ruta_valida:
  "matriz_valida n m \<Longrightarrow>
   distancia_ruta m r =
     (if length r < 2 \<or> (\<forall>x \<in> set r. x < n) then Inr (peso_total m r) else Inl IndexError)"
  unfolding distancia_ruta_def peso_total_def
  by (simp only: bucle_distancia_valida pares_en_rango) simp



section \<open>The enumeration of permutations\<close>

lemma quitar_mset:
  "i < length xs \<Longrightarrow> mset (take i xs @ drop (Suc i) xs) = mset xs - {#xs ! i#}"
proof -
  assume "i < length xs"
  then have "xs = take i xs @ xs ! i # drop (Suc i) xs" by (rule id_take_nth_drop)
  then have "mset xs = mset (take i xs @ drop (Suc i) xs) + {#xs ! i#}"
    by (metis mset.simps(2) mset_append union_mset_add_mset_right add_mset_add_single)
  then show ?thesis by simp
qed

lemma permutaciones_desplegada:
  "zs \<noteq> [] \<Longrightarrow>
   permutaciones zs =
     concat (map (\<lambda>i. map ((#) (zs ! i)) (permutaciones (take i zs @ drop (Suc i) zs)))
                 [0..<length zs])"
  by (cases zs) (simp_all only: permutaciones.simps simp_thms)

lemma en_permutaciones:
  "zs \<noteq> [] \<Longrightarrow>
   ys \<in> set (permutaciones zs) \<longleftrightarrow>
     (\<exists>i q. i < length zs \<and> q \<in> set (permutaciones (take i zs @ drop (Suc i) zs)) \<and>
            ys = zs ! i # q)"
  by (subst permutaciones_desplegada) auto

lemma set_permutaciones: "set (permutaciones xs) = {ys. mset ys = mset xs}"
proof (induction "length xs" arbitrary: xs rule: less_induct)
  case less
  show ?case
  proof (cases "xs = []")
    case True
    then show ?thesis by simp
  next
    case False
    have IH: "set (permutaciones (take i xs @ drop (Suc i) xs)) = {ys. mset ys = mset xs - {#xs ! i#}}"
      if "i < length xs" for i
    proof -
      from that have "length (take i xs @ drop (Suc i) xs) < length xs" by simp
      from less[OF this] show ?thesis by (simp only: quitar_mset[OF that])
    qed
    show ?thesis
    proof (intro set_eqI iffI)
      fix ys assume "ys \<in> set (permutaciones xs)"
      then obtain i q where i: "i < length xs"
        and q: "q \<in> set (permutaciones (take i xs @ drop (Suc i) xs))"
        and ys: "ys = xs ! i # q"
        using en_permutaciones[OF False] by blast
      from q IH[OF i] have "mset q = mset xs - {#xs ! i#}" by simp
      moreover have "xs ! i \<in># mset xs" using i by simp
      ultimately show "ys \<in> {ys. mset ys = mset xs}" using ys by simp
    next
      fix ys assume "ys \<in> {ys. mset ys = mset xs}"
      then have m: "mset ys = mset xs" by simp
      with False obtain y q where ys: "ys = y # q" by (cases ys) auto
      with m have "y \<in> set xs" by (metis list.set_intros(1) mset_eq_setD)
      then obtain i where i: "i < length xs" "xs ! i = y" by (meson in_set_conv_nth)
      from m ys have "mset q = mset xs - {#y#}" by (metis add_mset_remove_trivial mset.simps(2))
      with IH[OF i(1)] i have "q \<in> set (permutaciones (take i xs @ drop (Suc i) xs))" by simp
      with i ys show "ys \<in> set (permutaciones xs)"
        using en_permutaciones[OF False] by blast
    qed
  qed
qed

lemma permutaciones_upt: "set (permutaciones [a..<n]) = {p. distinct p \<and> set p = {a..<n}}"
proof (intro set_eqI iffI)
  fix p assume "p \<in> set (permutaciones [a..<n])"
  then have m: "mset p = mset [a..<n]" by (simp add: set_permutaciones)
  then have "distinct p" using mset_eq_imp_distinct_iff[OF m] by simp
  moreover have "set p = {a..<n}" using mset_eq_setD[OF m] by simp
  ultimately show "p \<in> {p. distinct p \<and> set p = {a..<n}}" by simp
next
  fix p assume "p \<in> {p. distinct p \<and> set p = {a..<n}}"
  then have "distinct p" "set p = set [a..<n]" by simp_all
  then have "mset p = mset [a..<n]" using set_eq_iff_mset_eq_distinct[of p "[a..<n]"] by simp
  then show "p \<in> set (permutaciones [a..<n])" by (simp add: set_permutaciones)
qed

section \<open>The enumeration is in lexicographic order\<close>

lemma lex_menor_Cons [simp]:
  "lex_menor (x # p) (y # q) \<longleftrightarrow> x < y \<or> (x = y \<and> lex_menor p q)"
  by (auto simp: lex_menor_def)





section \<open>The loop of the exhaustive search\<close>

lemma menor_trans: "d' < d \<Longrightarrow> menor d c \<Longrightarrow> menor d' c"
  by (cases c) auto

lemma menor_no_menor: "menor d' c \<Longrightarrow> \<not> menor d c \<Longrightarrow> d' < d"
  by (cases c) auto

lemma distancia_ruta_ciclo:
  assumes "matriz_valida n m" "0 < n" "\<forall>x \<in> set p. x < n"
  shows "distancia_ruta m ([0] @ p @ [0]) = Inr (peso_total m (0 # p @ [0]))"
  using assms by (simp add: distancia_ruta_valida[OF assms(1)])

text \<open>
  The loop keeps the first candidate of least weight: every earlier one is strictly
  heavier, every later one at least as heavy.
\<close>

lemma bucle_permutaciones_post:
  assumes "matriz_valida n m" "0 < n" "\<forall>p \<in> set ps. \<forall>x \<in> set p. x < n"
  shows "(bucle_permutaciones m ps (b, c) = Inr (b, c) \<and>
            (\<forall>p \<in> set ps. \<not> menor (peso_total m (0 # p @ [0])) c)) \<or>
         (\<exists>i < length ps.
            bucle_permutaciones m ps (b, c) =
              Inr (Some (0 # ps ! i @ [0]), Finito (peso_total m (0 # ps ! i @ [0]))) \<and>
            menor (peso_total m (0 # ps ! i @ [0])) c \<and>
            (\<forall>j < i. peso_total m (0 # ps ! i @ [0]) < peso_total m (0 # ps ! j @ [0])) \<and>
            (\<forall>j < length ps. peso_total m (0 # ps ! i @ [0]) \<le> peso_total m (0 # ps ! j @ [0])))"
  using assms(3)
proof (induction ps arbitrary: b c)
  case Nil
  then show ?case by simp
next
  case (Cons p ps)
  let ?W = "\<lambda>q. peso_total m (0 # q @ [0])"
  from Cons.prems have p: "\<forall>x \<in> set p. x < n" and ps: "\<forall>q \<in> set ps. \<forall>x \<in> set q. x < n"
    by simp_all
  have d: "distancia_ruta m ([0] @ p @ [0]) = Inr (?W p)"
    by (rule distancia_ruta_ciclo[OF assms(1,2) p])
  show ?case
  proof (cases "menor (?W p) c")
    case True
    then have paso: "bucle_permutaciones m (p # ps) (b, c) =
        bucle_permutaciones m ps (Some (0 # p @ [0]), Finito (?W p))"
      using d by (simp add: Let_def)
    from Cons.IH[OF ps, of "Some (0 # p @ [0])" "Finito (?W p)"]
    show ?thesis
    proof (elim disjE conjE exE)
      assume r: "bucle_permutaciones m ps (Some (0 # p @ [0]), Finito (?W p)) =
          Inr (Some (0 # p @ [0]), Finito (?W p))"
        and nadie: "\<forall>q \<in> set ps. \<not> menor (?W q) (Finito (?W p))"
      have "\<forall>j < length (p # ps). ?W p \<le> ?W ((p # ps) ! j)"
      proof (intro allI impI)
        fix j assume "j < length (p # ps)"
        then show "?W p \<le> ?W ((p # ps) ! j)" using nadie by (cases j) (auto simp: not_less)
      qed
      then have "0 < length (p # ps) \<and>
          bucle_permutaciones m (p # ps) (b, c) =
            Inr (Some (0 # (p # ps) ! 0 @ [0]), Finito (?W ((p # ps) ! 0))) \<and>
          menor (?W ((p # ps) ! 0)) c \<and>
          (\<forall>j < 0. ?W ((p # ps) ! 0) < ?W ((p # ps) ! j)) \<and>
          (\<forall>j < length (p # ps). ?W ((p # ps) ! 0) \<le> ?W ((p # ps) ! j))"
        using paso r True by simp
      then show ?thesis by blast
    next
      fix i assume i: "i < length ps"
        and r: "bucle_permutaciones m ps (Some (0 # p @ [0]), Finito (?W p)) =
          Inr (Some (0 # ps ! i @ [0]), Finito (?W (ps ! i)))"
        and mejor: "menor (?W (ps ! i)) (Finito (?W p))"
        and antes: "\<forall>j < i. ?W (ps ! i) < ?W (ps ! j)"
        and todos: "\<forall>j < length ps. ?W (ps ! i) \<le> ?W (ps ! j)"
      from mejor have lt: "?W (ps ! i) < ?W p" by simp
      have a: "\<forall>j < Suc i. ?W (ps ! i) < ?W ((p # ps) ! j)"
      proof (intro allI impI)
        fix j assume "j < Suc i"
        then show "?W (ps ! i) < ?W ((p # ps) ! j)" using lt antes by (cases j) auto
      qed
      have t: "\<forall>j < length (p # ps). ?W (ps ! i) \<le> ?W ((p # ps) ! j)"
      proof (intro allI impI)
        fix j assume "j < length (p # ps)"
        then show "?W (ps ! i) \<le> ?W ((p # ps) ! j)" using lt todos by (cases j) auto
      qed
      have "Suc i < length (p # ps) \<and>
          bucle_permutaciones m (p # ps) (b, c) =
            Inr (Some (0 # (p # ps) ! Suc i @ [0]), Finito (?W ((p # ps) ! Suc i))) \<and>
          menor (?W ((p # ps) ! Suc i)) c \<and>
          (\<forall>j < Suc i. ?W ((p # ps) ! Suc i) < ?W ((p # ps) ! j)) \<and>
          (\<forall>j < length (p # ps). ?W ((p # ps) ! Suc i) \<le> ?W ((p # ps) ! j))"
        using i paso r menor_trans[OF lt True] a t by simp
      then show ?thesis by blast
    qed
  next
    case False
    then have paso: "bucle_permutaciones m (p # ps) (b, c) = bucle_permutaciones m ps (b, c)"
      using d by (simp add: Let_def)
    from Cons.IH[OF ps, of b c]
    show ?thesis
    proof (elim disjE conjE exE)
      assume "bucle_permutaciones m ps (b, c) = Inr (b, c)"
        and "\<forall>q \<in> set ps. \<not> menor (?W q) c"
      then show ?thesis using paso False by simp
    next
      fix i assume i: "i < length ps"
        and r: "bucle_permutaciones m ps (b, c) =
          Inr (Some (0 # ps ! i @ [0]), Finito (?W (ps ! i)))"
        and mejor: "menor (?W (ps ! i)) c"
        and antes: "\<forall>j < i. ?W (ps ! i) < ?W (ps ! j)"
        and todos: "\<forall>j < length ps. ?W (ps ! i) \<le> ?W (ps ! j)"
      have lt: "?W (ps ! i) < ?W p" by (rule menor_no_menor[OF mejor False])
      have a: "\<forall>j < Suc i. ?W (ps ! i) < ?W ((p # ps) ! j)"
      proof (intro allI impI)
        fix j assume "j < Suc i"
        then show "?W (ps ! i) < ?W ((p # ps) ! j)" using lt antes by (cases j) auto
      qed
      have t: "\<forall>j < length (p # ps). ?W (ps ! i) \<le> ?W ((p # ps) ! j)"
      proof (intro allI impI)
        fix j assume "j < length (p # ps)"
        then show "?W (ps ! i) \<le> ?W ((p # ps) ! j)" using lt todos by (cases j) auto
      qed
      have "Suc i < length (p # ps) \<and>
          bucle_permutaciones m (p # ps) (b, c) =
            Inr (Some (0 # (p # ps) ! Suc i @ [0]), Finito (?W ((p # ps) ! Suc i))) \<and>
          menor (?W ((p # ps) ! Suc i)) c \<and>
          (\<forall>j < Suc i. ?W ((p # ps) ! Suc i) < ?W ((p # ps) ! j)) \<and>
          (\<forall>j < length (p # ps). ?W ((p # ps) ! Suc i) \<le> ?W ((p # ps) ! j))"
        using i paso r mejor a t by simp
      then show ?thesis by blast
    qed
  qed
qed

lemma busqueda_exhaustiva_primera_minima:
  assumes "matriz_valida n m" "0 < n"
  shows "\<exists>i < length (permutaciones [1..<n]).
           busqueda_exhaustiva n m =
             Inr (Some (0 # permutaciones [1..<n] ! i @ [0]),
                  Finito (peso_total m (0 # permutaciones [1..<n] ! i @ [0]))) \<and>
           (\<forall>j < i. peso_total m (0 # permutaciones [1..<n] ! i @ [0])
                       < peso_total m (0 # permutaciones [1..<n] ! j @ [0])) \<and>
           (\<forall>j < length (permutaciones [1..<n]).
                peso_total m (0 # permutaciones [1..<n] ! i @ [0])
                  \<le> peso_total m (0 # permutaciones [1..<n] ! j @ [0]))"
proof -
  let ?P = "permutaciones [1..<n]"
  have rango: "\<forall>p \<in> set ?P. \<forall>x \<in> set p. x < n"
    by (auto simp: permutaciones_upt)
  have "[1..<n] \<in> set ?P" by (simp add: set_permutaciones)
  then have "\<exists>p \<in> set ?P. menor (peso_total m (0 # p @ [0])) Infinito" by auto
  with bucle_permutaciones_post[OF assms rango, of None Infinito]
  show ?thesis unfolding busqueda_exhaustiva_def by blast
qed

lemma busqueda_exhaustiva_minima:
  assumes "matriz_valida n m" "0 < n"
  shows "\<exists>p. distinct p \<and> set p = {1..<n} \<and>
           busqueda_exhaustiva n m = Inr (Some (0 # p @ [0]), Finito (peso_total m (0 # p @ [0]))) \<and>
           (\<forall>q. distinct q \<and> set q = {1..<n} \<longrightarrow>
                 peso_total m (0 # p @ [0]) \<le> peso_total m (0 # q @ [0]))"
proof -
  let ?P = "permutaciones [1..<n]"
  from busqueda_exhaustiva_primera_minima[OF assms] obtain i where i: "i < length ?P"
    and r: "busqueda_exhaustiva n m =
             Inr (Some (0 # ?P ! i @ [0]), Finito (peso_total m (0 # ?P ! i @ [0])))"
    and t: "\<forall>j < length ?P. peso_total m (0 # ?P ! i @ [0]) \<le> peso_total m (0 # ?P ! j @ [0])"
    by blast
  from i have "?P ! i \<in> set ?P" by simp
  then have pi: "distinct (?P ! i)" "set (?P ! i) = {1..<n}" by (simp_all add: permutaciones_upt)
  have "peso_total m (0 # ?P ! i @ [0]) \<le> peso_total m (0 # q @ [0])"
    if "distinct q \<and> set q = {1..<n}" for q
  proof -
    from that have "q \<in> set ?P" by (simp add: permutaciones_upt)
    then obtain j where "j < length ?P" "?P ! j = q" by (meson in_set_conv_nth)
    with t show ?thesis by blast
  qed
  with pi r show ?thesis by blast
qed

section \<open>The loops of the nearest-neighbour heuristic\<close>

lemma peso_total_corto [simp]: "peso_total m [] = 0" "peso_total m [a] = 0"
  by (simp_all add: peso_total_def)

lemma peso_total_Cons [simp]:
  "peso_total m (a # b # rs) = m ! a ! b + peso_total m (b # rs)"
proof -
  have "[0..<Suc (length rs)] = 0 # map Suc [0..<length rs]"
    by (simp add: upt_conv_Cons map_Suc_upt del: upt_Suc)
  then show ?thesis
    by (simp add: peso_total_def comp_def del: upt_Suc)
qed

lemma peso_total_snoc:
  "rs \<noteq> [] \<Longrightarrow> peso_total m (rs @ [a]) = peso_total m rs + m ! last rs ! a"
proof (induction rs rule: induct_list012)
  case 1 then show ?case by simp
next
  case (2 x) then show ?case by simp
next
  case (3 x y zs) then show ?case by simp
qed

lemma buscar_cercana_post:
  assumes "matriz_valida n m" "actual < n" "\<forall>v \<in> set vs. v < n"
  shows "(buscar_cercana m actual vs (mc, c) = Inr (mc, c) \<and>
            (\<forall>v \<in> set vs. \<not> menor (m ! actual ! v) c)) \<or>
         (\<exists>x \<in> set vs.
            buscar_cercana m actual vs (mc, c) = Inr (Some x, Finito (m ! actual ! x)) \<and>
            menor (m ! actual ! x) c \<and>
            (\<forall>v \<in> set vs. m ! actual ! x \<le> m ! actual ! v))"
  using assms(3)
proof (induction vs arbitrary: mc c)
  case Nil
  then show ?case by simp
next
  case (Cons v vs)
  let ?d = "\<lambda>u. m ! actual ! u"
  from Cons.prems have v: "v < n" and vs: "\<forall>u \<in> set vs. u < n" by simp_all
  have l: "leer m actual v = Inr (?d v)" using assms(2) v by (simp add: leer_valida[OF assms(1)])
  show ?case
  proof (cases "menor (?d v) c")
    case True
    then have paso: "buscar_cercana m actual (v # vs) (mc, c) =
        buscar_cercana m actual vs (Some v, Finito (?d v))"
      using l by simp
    from Cons.IH[OF vs, of "Some v" "Finito (?d v)"]
    show ?thesis
    proof (elim disjE conjE bexE)
      assume "buscar_cercana m actual vs (Some v, Finito (?d v)) = Inr (Some v, Finito (?d v))"
        and "\<forall>u \<in> set vs. \<not> menor (?d u) (Finito (?d v))"
      then have "v \<in> set (v # vs) \<and>
          buscar_cercana m actual (v # vs) (mc, c) = Inr (Some v, Finito (?d v)) \<and>
          menor (?d v) c \<and> (\<forall>u \<in> set (v # vs). ?d v \<le> ?d u)"
        using paso True by (auto simp: not_less)
      then show ?thesis by blast
    next
      fix x assume x: "x \<in> set vs"
        and r: "buscar_cercana m actual vs (Some v, Finito (?d v)) = Inr (Some x, Finito (?d x))"
        and mejor: "menor (?d x) (Finito (?d v))"
        and todos: "\<forall>u \<in> set vs. ?d x \<le> ?d u"
      from mejor have lt: "?d x < ?d v" by simp
      have "x \<in> set (v # vs) \<and>
          buscar_cercana m actual (v # vs) (mc, c) = Inr (Some x, Finito (?d x)) \<and>
          menor (?d x) c \<and> (\<forall>u \<in> set (v # vs). ?d x \<le> ?d u)"
        using x paso r menor_trans[OF lt True] lt todos by simp
      then show ?thesis by blast
    qed
  next
    case False
    then have paso: "buscar_cercana m actual (v # vs) (mc, c) = buscar_cercana m actual vs (mc, c)"
      using l by simp
    from Cons.IH[OF vs, of mc c]
    show ?thesis
    proof (elim disjE conjE bexE)
      assume "buscar_cercana m actual vs (mc, c) = Inr (mc, c)"
        and "\<forall>u \<in> set vs. \<not> menor (?d u) c"
      then show ?thesis using paso False by simp
    next
      fix x assume x: "x \<in> set vs"
        and r: "buscar_cercana m actual vs (mc, c) = Inr (Some x, Finito (?d x))"
        and mejor: "menor (?d x) c"
        and todos: "\<forall>u \<in> set vs. ?d x \<le> ?d u"
      have lt: "?d x < ?d v" by (rule menor_no_menor[OF mejor False])
      have "x \<in> set (v # vs) \<and>
          buscar_cercana m actual (v # vs) (mc, c) = Inr (Some x, Finito (?d x)) \<and>
          menor (?d x) c \<and> (\<forall>u \<in> set (v # vs). ?d x \<le> ?d u)"
        using x paso r mejor lt todos by simp
      then show ?thesis by blast
    qed
  qed
qed

lemma buscar_cercana_inicial:
  assumes "matriz_valida n m" "actual < n" "\<forall>v \<in> set vs. v < n" "vs \<noteq> []"
  shows "\<exists>x \<in> set vs.
           buscar_cercana m actual vs (None, Infinito) = Inr (Some x, Finito (m ! actual ! x)) \<and>
           (\<forall>v \<in> set vs. m ! actual ! x \<le> m ! actual ! v)"
proof -
  from assms(4) have "\<exists>v \<in> set vs. menor (m ! actual ! v) Infinito" by (cases vs) auto
  with buscar_cercana_post[OF assms(1-3), of None Infinito] show ?thesis by blast
qed

lemma bucle_vecino_post:
  assumes "matriz_valida n m"
  shows "actual < n \<Longrightarrow> \<forall>v \<in> set vs. v < n \<Longrightarrow> distinct vs \<Longrightarrow>
         \<exists>q. bucle_vecino m vs ruta actual (Finito dt) =
                Inr (ruta @ q, last (actual # q), Finito (dt + peso_total m (actual # q))) \<and>
              eleccion_voraz m actual vs q \<and> distinct q \<and> set q = set vs"
proof (induction "length vs" arbitrary: vs ruta actual dt rule: less_induct)
  case less
  show ?case
  proof (cases "vs = []")
    case True
    then have "bucle_vecino m vs ruta actual (Finito dt) =
                Inr (ruta @ [], last (actual # []), Finito (dt + peso_total m (actual # []))) \<and>
              eleccion_voraz m actual vs [] \<and> distinct ([]::nat list) \<and> set [] = set vs"
      by (simp add: bucle_vecino.simps)
    then show ?thesis by blast
  next
    case False
    from buscar_cercana_inicial[OF assms less.prems(1,2) False] obtain x where x: "x \<in> set vs"
      and r: "buscar_cercana m actual vs (None, Infinito) = Inr (Some x, Finito (m ! actual ! x))"
      and cerca: "\<forall>v \<in> set vs. m ! actual ! x \<le> m ! actual ! v"
      by blast
    have paso: "bucle_vecino m vs ruta actual (Finito dt) =
        bucle_vecino m (remove1 x vs) (ruta @ [x]) x (Finito (dt + m ! actual ! x))"
      using False r x by (subst bucle_vecino.simps) simp
    have "length (remove1 x vs) < length vs" using x False by (simp add: length_remove1)
    moreover have "x < n" using x less.prems(2) by blast
    moreover have "\<forall>v \<in> set (remove1 x vs). v < n" using less.prems(2,3) by simp
    moreover have "distinct (remove1 x vs)" using less.prems(3) by simp
    ultimately obtain q where
      rq: "bucle_vecino m (remove1 x vs) (ruta @ [x]) x (Finito (dt + m ! actual ! x)) =
             Inr ((ruta @ [x]) @ q, last (x # q),
                  Finito ((dt + m ! actual ! x) + peso_total m (x # q)))"
      and vq: "eleccion_voraz m x (remove1 x vs) q"
      and dq: "distinct q" and sq: "set q = set (remove1 x vs)"
      using less.hyps[of "remove1 x vs" x "ruta @ [x]" "dt + m ! actual ! x"] by blast
    have "bucle_vecino m vs ruta actual (Finito dt) =
            Inr (ruta @ (x # q), last (actual # x # q),
                 Finito (dt + peso_total m (actual # x # q))) \<and>
          eleccion_voraz m actual vs (x # q) \<and> distinct (x # q) \<and> set (x # q) = set vs"
      using paso rq vq dq sq x cerca less.prems(3) by (auto simp: add.assoc)
    then show ?thesis by blast
  qed
qed

lemma vecino_mas_cercano_voraz:
  assumes "matriz_valida n m" "0 < n"
  shows "\<exists>q. vecino_mas_cercano n m =
                Inr (0 # q @ [0], Finito (peso_total m (0 # q @ [0]))) \<and>
              eleccion_voraz m 0 [1..<n] q \<and> distinct q \<and> set q = {1..<n}"
proof -
  have "\<forall>v \<in> set [1..<n]. v < n" "distinct [1..<n]" by simp_all
  from bucle_vecino_post[OF assms(1) assms(2) this, of "[0]" 0] obtain q where
    r: "bucle_vecino m [1..<n] [0] 0 (Finito 0) =
          Inr ([0] @ q, last (0 # q), Finito (0 + peso_total m (0 # q)))"
    and v: "eleccion_voraz m 0 [1..<n] q" and d: "distinct q" and s: "set q = set [1..<n]"
    by blast
  have "last (0 # q) < n"
  proof (cases "q = []")
    case True then show ?thesis using assms(2) by simp
  next
    case False
    then have "last q \<in> set q" by simp
    with s False show ?thesis by simp
  qed
  then have l: "leer m (last (0 # q)) 0 = Inr (m ! last (0 # q) ! 0)"
    using assms(2) by (simp add: leer_valida[OF assms(1)])
  have "peso_total m (0 # q @ [0]) = peso_total m (0 # q) + m ! last (0 # q) ! 0"
    using peso_total_snoc[of "0 # q" m 0] by simp
  then have "vecino_mas_cercano n m = Inr (0 # q @ [0], Finito (peso_total m (0 # q @ [0])))"
    unfolding vecino_mas_cercano_def using r l by simp
  with v d s show ?thesis by auto
qed

section \<open>The distance matrix in closed form\<close>

lemma fila_j_bucle:
  assumes "i < length m" "length (m ! i) = n" "k \<le> n"
  shows "foldl (fila_j coords i) m [0..<k] =
           m[i := map (\<lambda>j. if j < k then calcular_distancia (coords ! i) (coords ! j)
                              else m ! i ! j) [0..<n]]"
  using assms(3)
proof (induction k)
  case 0
  have "map (\<lambda>j. m ! i ! j) [0..<n] = m ! i"
    using assms(2) map_nth[of "m ! i"] by simp
  then show ?case by simp
next
  case (Suc k)
  let ?fila = "\<lambda>k. map (\<lambda>j. if j < k then calcular_distancia (coords ! i) (coords ! j)
                              else m ! i ! j) [0..<n]"
  from Suc have IH: "foldl (fila_j coords i) m [0..<k] = m[i := ?fila k]" by simp
  have h: "(?fila k)[k := calcular_distancia (coords ! i) (coords ! k)] = ?fila (Suc k)"
    by (rule nth_equalityI) (auto simp: nth_list_update less_Suc_eq)
  have "foldl (fila_j coords i) m [0..<Suc k] =
          fila_j coords i (foldl (fila_j coords i) m [0..<k]) k"
    by simp
  also have "\<dots> = fila_j coords i (m[i := ?fila k]) k" by (simp only: IH)
  also have "\<dots> = m[i := (?fila k)[k := calcular_distancia (coords ! i) (coords ! k)]]"
    using assms(1) by (simp add: fila_j_def)
  also have "\<dots> = m[i := ?fila (Suc k)]" by (simp only: h)
  finally show ?case .
qed

lemma fila_i_cerrada:
  assumes "i < length m" "length (m ! i) = n"
  shows "fila_i coords n m i =
           m[i := map (\<lambda>j. calcular_distancia (coords ! i) (coords ! j)) [0..<n]]"
proof -
  have "map (\<lambda>j. if j < n then calcular_distancia (coords ! i) (coords ! j) else m ! i ! j) [0..<n]
          = map (\<lambda>j. calcular_distancia (coords ! i) (coords ! j)) [0..<n]"
    by simp
  then show ?thesis
    unfolding fila_i_def by (simp only: fila_j_bucle[OF assms order_refl])
qed

lemma fila_i_bucle:
  assumes "k \<le> n"
  shows "foldl (fila_i coords n) (replicate n (replicate n 0)) [0..<k] =
           map (\<lambda>i. if i < k then map (\<lambda>j. calcular_distancia (coords ! i) (coords ! j)) [0..<n]
                      else replicate n 0) [0..<n]"
  using assms
proof (induction k)
  case 0
  show ?case by (rule nth_equalityI) simp_all
next
  case (Suc k)
  let ?M = "\<lambda>k. map (\<lambda>i. if i < k then map (\<lambda>j. calcular_distancia (coords ! i) (coords ! j)) [0..<n]
                      else replicate n 0) [0..<n]"
  from Suc have IH: "foldl (fila_i coords n) (replicate n (replicate n 0)) [0..<k] = ?M k"
    and k: "k < n" by simp_all
  have "fila_i coords n (?M k) k =
          (?M k)[k := map (\<lambda>j. calcular_distancia (coords ! k) (coords ! j)) [0..<n]]"
    using k by (intro fila_i_cerrada) simp_all
  also have "\<dots> = ?M (Suc k)"
    by (rule nth_equalityI) (auto simp: nth_list_update less_Suc_eq)
  finally have paso: "fila_i coords n (?M k) k = ?M (Suc k)" .
  have "foldl (fila_i coords n) (replicate n (replicate n 0)) [0..<Suc k] =
          fila_i coords n (foldl (fila_i coords n) (replicate n (replicate n 0)) [0..<k]) k"
    by simp
  then show ?case by (simp only: IH paso)
qed

lemma matriz_distancias_cerrada:
  "matriz_distancias coords =
     map (\<lambda>i. map (\<lambda>j. calcular_distancia (coords ! i) (coords ! j)) [0..<length coords])
         [0..<length coords]"
proof -
  have "map (\<lambda>i. if i < length coords
                  then map (\<lambda>j. calcular_distancia (coords ! i) (coords ! j)) [0..<length coords]
                  else replicate (length coords) 0) [0..<length coords]
        = map (\<lambda>i. map (\<lambda>j. calcular_distancia (coords ! i) (coords ! j)) [0..<length coords])
              [0..<length coords]"
    by simp
  then show ?thesis
    unfolding matriz_distancias_def Let_def by (simp only: fila_i_bucle[OF order_refl])
qed

lemma matriz_distancias_nth:
  "i < length coords \<Longrightarrow> j < length coords \<Longrightarrow>
   matriz_distancias coords ! i ! j = calcular_distancia (coords ! i) (coords ! j)"
  by (simp add: matriz_distancias_cerrada)

lemma matriz_distancias_valida: "matriz_valida (length coords) (matriz_distancias coords)"
  by (auto simp: matriz_valida_def matriz_distancias_cerrada)

lemma calcular_distancia_sim: "calcular_distancia p q = calcular_distancia q p"
  by (simp add: calcular_distancia_def power2_commute)

lemma calcular_distancia_cero: "calcular_distancia p p = 0"
  by (simp add: calcular_distancia_def)

lemma calcular_distancia_no_neg: "0 \<le> calcular_distancia p q"
  by (simp add: calcular_distancia_def)

section \<open>Reversing a route\<close>



section \<open>Fewer than two points\<close>

lemma busqueda_exhaustiva_uno:
  "matriz_valida 1 m \<Longrightarrow> busqueda_exhaustiva 1 m = Inr (Some [0, 0], Finito (m ! 0 ! 0))"
  by (simp add: busqueda_exhaustiva_def distancia_ruta_def leer_valida)

lemma vecino_mas_cercano_uno:
  "matriz_valida 1 m \<Longrightarrow> vecino_mas_cercano 1 m = Inr ([0, 0], Finito (m ! 0 ! 0))"
  by (simp add: vecino_mas_cercano_def bucle_vecino.simps leer_valida)



section \<open>Claims\<close>

lemma ciclo_valido:
  assumes "0 < n" "distinct p" "set p = {1..<n}"
  shows "ruta_valida n (0 # p @ [0])"
proof -
  have "length p = card {1..<n}" using assms(2,3) distinct_card by metis
  then have "length p = n - 1" by simp
  with assms show ?thesis by (simp add: ruta_valida_def)
qed

text \<open>
  C1. For \<open>n \<ge> 2\<close> and an \<open>n\<close>-by-\<open>n\<close> matrix, \<open>busqueda_exhaustiva\<close> returns a closed
  route \<open>[0, p, 0]\<close> over a permutation \<open>p\<close> of \<open>1..n-1\<close>; the returned cost is the sum of
  the consecutive edge weights of that route and is at most the cost of every closed route
  \<open>[0, q, 0]\<close> over a permutation \<open>q\<close> of \<open>1..n-1\<close>. Symmetry and non-negativity of the
  matrix are not needed.
\<close>

theorem busqueda_exhaustiva_optima:
  assumes "2 \<le> n" "matriz_valida n m"
  shows "\<exists>ruta c. busqueda_exhaustiva n m = Inr (Some ruta, Finito c) \<and>
           c = peso_total m ruta \<and>
           (\<exists>p. distinct p \<and> set p = {1..<n} \<and> ruta = 0 # p @ [0]) \<and>
           (\<forall>q. distinct q \<and> set q = {1..<n} \<longrightarrow> c \<le> peso_total m (0 # q @ [0]))"
proof -
  from assms(1) have "0 < n" by simp
  from busqueda_exhaustiva_minima[OF assms(2) this] show ?thesis by blast
qed

theorem busqueda_exhaustiva_optima_witness:
  "(2::nat) \<le> 3 \<and> matriz_valida 3 [[0, 1, 2], [1, 0, 3], [2, 3, 0]] \<and>
   (\<exists>ruta c. busqueda_exhaustiva 3 [[0, 1, 2], [1, 0, 3], [2, 3, 0]] = Inr (Some ruta, Finito c) \<and>
      c = peso_total [[0, 1, 2], [1, 0, 3], [2, 3, 0]] ruta \<and>
      (\<exists>p. distinct p \<and> set p = {1..<3} \<and> ruta = 0 # p @ [0]) \<and>
      (\<forall>q. distinct q \<and> set q = {1..<3} \<longrightarrow>
           c \<le> peso_total [[0, 1, 2], [1, 0, 3], [2, 3, 0]] (0 # q @ [0])))"
proof -
  have v: "matriz_valida 3 [[0, 1, 2], [1, 0, 3], [2, 3, 0]]" by (simp add: matriz_valida_def)
  have n: "(2::nat) \<le> 3" by simp
  from busqueda_exhaustiva_optima[OF n v] n v show ?thesis by blast
qed

text \<open>
  C2. For \<open>n \<ge> 2\<close> and an \<open>n\<close>-by-\<open>n\<close> matrix both solvers return, and the cost returned
  by \<open>busqueda_exhaustiva\<close> is at most the cost returned by \<open>vecino_mas_cercano\<close>.
\<close>

theorem exhaustiva_no_supera_a_vecino:
  assumes "2 \<le> n" "matriz_valida n m"
  shows "\<exists>r1 c1 r2 c2. busqueda_exhaustiva n m = Inr (Some r1, Finito c1) \<and>
           vecino_mas_cercano n m = Inr (r2, Finito c2) \<and> c1 \<le> c2"
proof -
  from assms(1) have n: "0 < n" by simp
  from busqueda_exhaustiva_minima[OF assms(2) n] obtain p where
    e: "busqueda_exhaustiva n m = Inr (Some (0 # p @ [0]), Finito (peso_total m (0 # p @ [0])))"
    and mn: "\<forall>q. distinct q \<and> set q = {1..<n} \<longrightarrow>
                 peso_total m (0 # p @ [0]) \<le> peso_total m (0 # q @ [0])"
    by blast
  from vecino_mas_cercano_voraz[OF assms(2) n] obtain q where
    v: "vecino_mas_cercano n m = Inr (0 # q @ [0], Finito (peso_total m (0 # q @ [0])))"
    and q: "distinct q" "set q = {1..<n}"
    by blast
  from mn q have "peso_total m (0 # p @ [0]) \<le> peso_total m (0 # q @ [0])" by blast
  with e v show ?thesis by blast
qed

theorem exhaustiva_no_supera_a_vecino_witness:
  "(2::nat) \<le> 4 \<and> matriz_valida 4 [[0, 1, 5, 1], [1, 0, 1, 5], [5, 1, 0, 1], [1, 5, 1, 0]] \<and>
   (\<exists>r1 c1 r2 c2.
      busqueda_exhaustiva 4 [[0, 1, 5, 1], [1, 0, 1, 5], [5, 1, 0, 1], [1, 5, 1, 0]]
        = Inr (Some r1, Finito c1) \<and>
      vecino_mas_cercano 4 [[0, 1, 5, 1], [1, 0, 1, 5], [5, 1, 0, 1], [1, 5, 1, 0]]
        = Inr (r2, Finito c2) \<and> c1 \<le> c2)"
proof -
  have v: "matriz_valida 4 [[0, 1, 5, 1], [1, 0, 1, 5], [5, 1, 0, 1], [1, 5, 1, 0]]"
    by (simp add: matriz_valida_def)
  have n: "(2::nat) \<le> 4" by simp
  from exhaustiva_no_supera_a_vecino[OF n v] n v show ?thesis by blast
qed

text \<open>
  C3. For \<open>n \<ge> 2\<close> and an \<open>n\<close>-by-\<open>n\<close> matrix, the routes returned by both solvers satisfy
  the Route invariant: length \<open>n + 1\<close>, index 0 first and last, and between them each of
  \<open>1..n-1\<close> exactly once.
\<close>

theorem rutas_devueltas_validas:
  assumes "2 \<le> n" "matriz_valida n m"
  shows "\<exists>r1 c1 r2 c2. busqueda_exhaustiva n m = Inr (Some r1, c1) \<and>
           vecino_mas_cercano n m = Inr (r2, c2) \<and>
           ruta_valida n r1 \<and> ruta_valida n r2"
proof -
  from assms(1) have n: "0 < n" by simp
  from busqueda_exhaustiva_minima[OF assms(2) n] obtain p where
    e: "busqueda_exhaustiva n m = Inr (Some (0 # p @ [0]), Finito (peso_total m (0 # p @ [0])))"
    and p: "distinct p" "set p = {1..<n}"
    by blast
  from vecino_mas_cercano_voraz[OF assms(2) n] obtain q where
    v: "vecino_mas_cercano n m = Inr (0 # q @ [0], Finito (peso_total m (0 # q @ [0])))"
    and q: "distinct q" "set q = {1..<n}"
    by blast
  from ciclo_valido[OF n p] ciclo_valido[OF n q] e v show ?thesis by blast
qed

theorem rutas_devueltas_validas_witness:
  "(2::nat) \<le> 2 \<and> matriz_valida 2 [[0, 7], [7, 0]] \<and>
   (\<exists>r1 c1 r2 c2. busqueda_exhaustiva 2 [[0, 7], [7, 0]] = Inr (Some r1, c1) \<and>
      vecino_mas_cercano 2 [[0, 7], [7, 0]] = Inr (r2, c2) \<and>
      ruta_valida 2 r1 \<and> ruta_valida 2 r2)"
proof -
  have v: "matriz_valida 2 [[0, 7], [7, 0]]" by (simp add: matriz_valida_def)
  have n: "(2::nat) \<le> 2" by simp
  from rutas_devueltas_validas[OF n v] n v show ?thesis by blast
qed

text \<open>
  C4. For \<open>n \<ge> 2\<close> and an \<open>n\<close>-by-\<open>n\<close> matrix, \<open>vecino_mas_cercano\<close> returns a route
  \<open>[0, q, 0]\<close> whose inner part \<open>q\<close> follows the greedy rule from index 0 with the unvisited
  indices \<open>1..n-1\<close>: each next index is unvisited and nearest to the current position among
  the unvisited ones, is removed from them and becomes the current position, until none is
  left; the route is then closed with index 0, and the returned cost is the sum of the
  consecutive edge weights of the returned route.
\<close>

theorem vecino_mas_cercano_regla_voraz:
  assumes "2 \<le> n" "matriz_valida n m"
  shows "\<exists>q c. vecino_mas_cercano n m = Inr (0 # q @ [0], Finito c) \<and>
           eleccion_voraz m 0 [1..<n] q \<and>
           c = peso_total m (0 # q @ [0])"
proof -
  from assms(1) have "0 < n" by simp
  from vecino_mas_cercano_voraz[OF assms(2) this] show ?thesis by blast
qed

theorem vecino_mas_cercano_regla_voraz_witness:
  "(2::nat) \<le> 3 \<and> matriz_valida 3 [[0, 4, 2], [4, 0, 3], [2, 3, 0]] \<and>
   (\<exists>q c. vecino_mas_cercano 3 [[0, 4, 2], [4, 0, 3], [2, 3, 0]] = Inr (0 # q @ [0], Finito c) \<and>
      eleccion_voraz [[0, 4, 2], [4, 0, 3], [2, 3, 0]] 0 [1..<3] q \<and>
      c = peso_total [[0, 4, 2], [4, 0, 3], [2, 3, 0]] (0 # q @ [0])) \<and>
   vecino_mas_cercano 3 [[0, 4, 2], [4, 0, 3], [2, 3, 0]] = Inr ([0, 2, 1, 0], Finito 9)"
proof -
  have v: "matriz_valida 3 [[0, 4, 2], [4, 0, 3], [2, 3, 0]]" by (simp add: matriz_valida_def)
  have n: "(2::nat) \<le> 3" by simp
  have r: "vecino_mas_cercano 3 [[0, 4, 2], [4, 0, 3], [2, 3, 0]] = Inr ([0, 2, 1, 0], Finito 9)"
    by (simp add: vecino_mas_cercano_def bucle_vecino.simps leer_def upt_rec[of 1] upt_rec[of 2]
          numeral_3_eq_3)
  from vecino_mas_cercano_regla_voraz[OF n v] n v r show ?thesis by blast
qed

text \<open>
  C5. The matrix built from the coordinate list with the Euclidean distance has, at all
  indices \<open>i\<close> and \<open>j\<close> in range, a zero diagonal entry, equal entries at \<open>(i, j)\<close> and
  \<open>(j, i)\<close>, and a non-negative entry (in exact real arithmetic).
\<close>

theorem matriz_distancias_metrica:
  assumes "i < length coords" "j < length coords"
  shows "matriz_distancias coords ! i ! i = 0 \<and>
         matriz_distancias coords ! i ! j = matriz_distancias coords ! j ! i \<and>
         0 \<le> matriz_distancias coords ! i ! j"
  using assms
  by (simp add: matriz_distancias_nth calcular_distancia_cero calcular_distancia_no_neg
        calcular_distancia_sim[of "coords ! i" "coords ! j"])

theorem matriz_distancias_metrica_witness:
  "(0::nat) < length [(0::real, 0::real), (3, 4)] \<and> (1::nat) < length [(0::real, 0::real), (3, 4)] \<and>
   matriz_distancias [(0, 0), (3, 4)] ! 0 ! 0 = 0 \<and>
   matriz_distancias [(0, 0), (3, 4)] ! 0 ! 1 = matriz_distancias [(0, 0), (3, 4)] ! 1 ! 0 \<and>
   0 \<le> matriz_distancias [(0, 0), (3, 4)] ! 0 ! 1"
proof -
  have a: "(0::nat) < length [(0::real, 0::real), (3, 4)]" by simp
  have b: "(1::nat) < length [(0::real, 0::real), (3, 4)]" by simp
  from matriz_distancias_metrica[OF a b] a b show ?thesis by blast
qed





text \<open>
  C10. For \<open>n = 1\<close> and a 1-by-1 matrix with a zero diagonal, neither solver raises:
  each returns the route \<open>[0, 0]\<close> with the cost \<open>matriz[0][0]\<close>, which is 0.
\<close>

theorem un_solo_punto:
  assumes "matriz_valida 1 m" "m ! 0 ! 0 = 0"
  shows "busqueda_exhaustiva 1 m = Inr (Some [0, 0], Finito (m ! 0 ! 0)) \<and>
         vecino_mas_cercano 1 m = Inr ([0, 0], Finito (m ! 0 ! 0)) \<and>
         Finito (m ! 0 ! 0) = Finito 0"
  using busqueda_exhaustiva_uno[OF assms(1)] vecino_mas_cercano_uno[OF assms(1)] assms(2)
  by simp

theorem un_solo_punto_witness:
  "matriz_valida 1 [[0]] \<and> [[0::real]] ! 0 ! 0 = 0 \<and>
   busqueda_exhaustiva 1 [[0]] = Inr (Some [0, 0], Finito ([[0]] ! 0 ! 0)) \<and>
   vecino_mas_cercano 1 [[0]] = Inr ([0, 0], Finito ([[0]] ! 0 ! 0)) \<and>
   Finito ([[0]] ! 0 ! 0) = Finito 0"
proof -
  have v: "matriz_valida 1 [[0]]" by (simp add: matriz_valida_def)
  have d: "[[0::real]] ! 0 ! 0 = 0" by simp
  from un_solo_punto[OF v d] v d show ?thesis by blast
qed




text \<open>
  C7 at two coincident points. The distance matrix is all zeros, both solvers return the
  route \<open>[0, 1, 0]\<close> with cost 0, and the unguarded division of line 129 then raises
  \<open>ZeroDivisionError\<close>: no "N/A" is produced.
\<close>

theorem gap_puntos_coincidentes:
  "busqueda_exhaustiva 2 (matriz_distancias [(0, 0), (0, 0)]) = Inr (Some [0, 1, 0], Finito 0) \<and>
   vecino_mas_cercano 2 (matriz_distancias [(0, 0), (0, 0)]) = Inr ([0, 1, 0], Finito 0) \<and>
   gap 0 0 = Inl ZeroDivisionError"
proof -
  have m: "matriz_distancias [(0, 0), (0, 0)] = [[0, 0], [0, 0]]"
    by (simp add: matriz_distancias_cerrada calcular_distancia_def upt_rec[of 0] nth_Cons')
  have "busqueda_exhaustiva 2 [[0, 0], [0, 0]] = Inr (Some [0, 1, 0], Finito 0)"
    by (simp add: busqueda_exhaustiva_def distancia_ruta_def leer_def upt_rec[of 0]
          upt_rec[of 1] numeral_2_eq_2)
  moreover have "vecino_mas_cercano 2 [[0, 0], [0, 0]] = Inr ([0, 1, 0], Finito 0)"
    by (simp add: vecino_mas_cercano_def bucle_vecino.simps leer_def upt_rec[of 1] numeral_2_eq_2)
  moreover have "gap 0 0 = Inl ZeroDivisionError" by (simp add: gap_def)
  ultimately show ?thesis by (simp only: m) 
qed

end
